theory Spec2Isabelle
  imports Complex_Main
begin

section \<open>The notebook's own functions, over a small model of NumPy\<close>

text \<open>
  The notebook \<^verbatim>\<open>intro_Bayesian_PyMC3_ODSC_Oct_2020.ipynb\<close> defines three
  functions of its own on arrays of numbers: \<^verbatim>\<open>make_random_OLS_data\<close>,
  \<^verbatim>\<open>generate_hierarchical_data\<close> and \<^verbatim>\<open>RMSE\<close>. They are embedded
  here over the NumPy operations they call. (A fourth function, \<^verbatim>\<open>subtract\<close>,
  is applied only to random-variable objects of the modelling library and is not
  embedded.) Floating-point numbers are idealised as reals, except that the one
  non-number the functions can produce from real inputs (the mean of an empty array) is
  kept as \<open>NaN\<close>. The values returned by \<^verbatim>\<open>np.random.normal\<close> are inputs of
  the model (the draws).
\<close>

subsection \<open>Errors and numbers\<close>

datatype error = ValueError | IndexError

datatype float64 = NaN | Num real

subsection \<open>One-dimensional arrays\<close>

type_synonym vec = "real list"

text \<open>
  Elementwise binary operators on one-dimensional arrays follow NumPy's broadcasting:
  equal shapes combine index by index, a length-one operand is stretched, any other
  pair of shapes raises \<^verbatim>\<open>ValueError\<close>.
\<close>

definition np_broadcast2 :: "(real \<Rightarrow> real \<Rightarrow> real) \<Rightarrow> vec \<Rightarrow> vec \<Rightarrow> error + vec" where
  "np_broadcast2 f a b =
     (if length a = length b then Inr (map2 f a b)
      else if length a = 1 then Inr (map (\<lambda>y. f (a ! 0) y) b)
      else if length b = 1 then Inr (map (\<lambda>x. f x (b ! 0)) a)
      else Inl ValueError)"

definition np_add :: "vec \<Rightarrow> vec \<Rightarrow> error + vec" where
  "np_add = np_broadcast2 (+)"

definition np_sub :: "vec \<Rightarrow> vec \<Rightarrow> error + vec" where
  "np_sub = np_broadcast2 (-)"

text \<open>\<^verbatim>\<open>np.mean\<close> of an empty array is \<^verbatim>\<open>nan\<close> (0.0 / 0).\<close>

definition np_mean :: "vec \<Rightarrow> float64" where
  "np_mean v = (if v = [] then NaN else Num (sum_list v / real (length v)))"

fun np_sqrt :: "float64 \<Rightarrow> float64" where
  "np_sqrt NaN = NaN"
| "np_sqrt (Num x) = (if x < 0 then NaN else Num (sqrt x))"

text \<open>
  \<^verbatim>\<open>np.random.normal(loc, scale, size)\<close>: a negative scale or a negative size
  raises \<^verbatim>\<open>ValueError\<close>; otherwise the call returns \<open>size\<close> numbers, here the
  first \<open>size\<close> values of the draw sequence given to the model. The scalar form
  (no size) returns one number.
\<close>

definition np_random_normal :: "real \<Rightarrow> real \<Rightarrow> real \<Rightarrow> error + real" where
  "np_random_normal loc scale draw = (if scale < 0 then Inl ValueError else Inr draw)"

definition np_random_normal_n :: "real \<Rightarrow> real \<Rightarrow> int \<Rightarrow> (nat \<Rightarrow> real) \<Rightarrow> error + vec" where
  "np_random_normal_n loc scale sz draws =
     (if scale < 0 \<or> sz < 0 then Inl ValueError else Inr (map draws [0..<nat sz]))"

subsection \<open>Two-dimensional arrays\<close>

text \<open>
  A two-dimensional array is its shape and its rows. \<open>wf_array2\<close> says that the rows
  agree with the shape; every array the operations below build satisfies it.
\<close>

record array2 =
  shape :: "nat \<times> nat"
  elems :: "real list list"

definition wf_array2 :: "array2 \<Rightarrow> bool" where
  "wf_array2 A \<longleftrightarrow>
     length (elems A) = fst (shape A) \<and> list_all (\<lambda>row. length row = snd (shape A)) (elems A)"

text \<open>The entry \<^verbatim>\<open>A[r, c]\<close>, read inside the shape.\<close>

definition entry :: "array2 \<Rightarrow> nat \<Rightarrow> nat \<Rightarrow> real" where
  "entry A r c = elems A ! r ! c"

text \<open>\<^verbatim>\<open>np.zeros(shape=(r, c))\<close>: a negative dimension raises \<^verbatim>\<open>ValueError\<close>.\<close>

definition np_zeros :: "int \<times> int \<Rightarrow> error + array2" where
  "np_zeros sh =
     (if fst sh < 0 \<or> snd sh < 0 then Inl ValueError
      else Inr \<lparr>shape = (nat (fst sh), nat (snd sh)),
                elems = replicate (nat (fst sh)) (replicate (nat (snd sh)) 0)\<rparr>)"

text \<open>\<^verbatim>\<open>np.reshape(v, [-1, 1])\<close> of a one-dimensional array: a column.\<close>

definition np_reshape_column :: "vec \<Rightarrow> array2" where
  "np_reshape_column v = \<lparr>shape = (length v, 1), elems = map (\<lambda>x. [x]) v\<rparr>"

text \<open>\<^verbatim>\<open>A.ravel()\<close>: the entries in row-major order.\<close>

definition ravel :: "array2 \<Rightarrow> vec" where
  "ravel A = concat (elems A)"

text \<open>\<^verbatim>\<open>np.ones_like(A)\<close>, and the scalar forms \<^verbatim>\<open>s * A\<close> and \<^verbatim>\<open>A + s\<close>.\<close>

definition np_ones_like :: "array2 \<Rightarrow> array2" where
  "np_ones_like A = A\<lparr>elems := map (map (\<lambda>_. 1)) (elems A)\<rparr>"

definition scalar_times :: "real \<Rightarrow> array2 \<Rightarrow> array2" where
  "scalar_times s A = A\<lparr>elems := map (map (\<lambda>x. s * x)) (elems A)\<rparr>"

definition plus_scalar :: "array2 \<Rightarrow> real \<Rightarrow> array2" where
  "plus_scalar A s = A\<lparr>elems := map (map (\<lambda>x. x + s)) (elems A)\<rparr>"

text \<open>
  The slice assignment \<^verbatim>\<open>A[lo:hi, c] = v\<close> with non-negative bounds. The slice is
  clipped to the rows of \<open>A\<close>; a column outside the shape raises \<^verbatim>\<open>IndexError\<close>;
  \<open>v\<close> must have as many entries as the slice has rows, or one entry (which is then
  broadcast), else \<^verbatim>\<open>ValueError\<close>.
\<close>

definition set_column_slice :: "array2 \<Rightarrow> nat \<Rightarrow> nat \<Rightarrow> nat \<Rightarrow> vec \<Rightarrow> error + array2" where
  "set_column_slice A lo hi c v =
     (let start = min lo (fst (shape A));
          stop = max start (min hi (fst (shape A)))
      in if snd (shape A) \<le> c then Inl IndexError
         else if length v \<noteq> stop - start \<and> length v \<noteq> 1 then Inl ValueError
         else Inr (A\<lparr>elems :=
                map (\<lambda>r. if start \<le> r \<and> r < stop
                          then (elems A ! r)[c := (if length v = 1 then v ! 0 else v ! (r - start))]
                          else elems A ! r)
                    [0..<length (elems A)]\<rparr>))"

subsection \<open>make_random_OLS_data\<close>

text \<open>
  \<^verbatim>\<open>
  def make_random_OLS_data(num_obs, intercept, beta):
      X = np.random.normal(1.0, 0.1, num_obs)
      epsilon = np.random.normal(0.0, 0.1, num_obs)
      y = intercept + (beta*X) + epsilon
      return X, y
  \<close>
  \<open>X_draws\<close> and \<open>epsilon_draws\<close> are the numbers the two calls of the generator
  return.
\<close>

definition make_random_OLS_data ::
  "(nat \<Rightarrow> real) \<Rightarrow> (nat \<Rightarrow> real) \<Rightarrow> int \<Rightarrow> real \<Rightarrow> real \<Rightarrow> error + (vec \<times> vec)" where
  "make_random_OLS_data X_draws epsilon_draws num_obs intercept beta =
     (case np_random_normal_n 1.0 0.1 num_obs X_draws of
        Inl e \<Rightarrow> Inl e
      | Inr X \<Rightarrow>
          (case np_random_normal_n 0.0 0.1 num_obs epsilon_draws of
             Inl e \<Rightarrow> Inl e
           | Inr epsilon \<Rightarrow>
               (case np_add (map (\<lambda>v. intercept + v) (map (\<lambda>x. beta * x) X)) epsilon of
                  Inl e \<Rightarrow> Inl e
                | Inr y \<Rightarrow> Inr (X, y))))"

subsection \<open>generate_hierarchical_data\<close>

text \<open>
  \<^verbatim>\<open>
  def generate_hierarchical_data(num_obs_per_group, num_groups, pop_intercept, pop_beta, pop_sd):
      group_lvl_params = []
      Y = np.zeros(shape=(num_groups*num_obs_per_group,1))
      X = np.zeros(shape=(num_groups*num_obs_per_group,1))
      group_id = np.zeros(shape=(num_groups*num_obs_per_group,1))
      for _ in range(num_groups):
          intercept_grp = np.random.normal(pop_intercept, pop_sd)
          beta_grp = np.random.normal(pop_beta, pop_sd)
          group_lvl_params.append([intercept_grp, beta_grp])
      print("Group level parameters: \n" , group_lvl_params)
      for i, group in enumerate(group_lvl_params):
          indiv_epsilon = np.reshape(np.random.normal(0.0, 0.01, num_obs_per_group), [-1, 1])
          y = group[1]*indiv_epsilon + group[0]
          X[i*num_obs_per_group:i*num_obs_per_group+num_obs_per_group,0] = indiv_epsilon.ravel()
          group_id[i*num_obs_per_group:i*num_obs_per_group+num_obs_per_group,0] = np.ones_like(indiv_epsilon).ravel() * i
          Y[i*num_obs_per_group:i*num_obs_per_group+num_obs_per_group,0] = y.ravel()
      return X, Y, group_id
  \<close>
  The draws are inputs: \<open>intercept_draws k\<close> and \<open>beta_draws k\<close> are the two numbers
  drawn in round \<open>k\<close> of the first loop, \<open>epsilon_draws i\<close> is the sequence drawn for
  group \<open>i\<close> in the second loop. A group's parameters \<^verbatim>\<open>[intercept_grp, beta_grp]\<close>
  are the pair \<open>grp\<close>, so \<^verbatim>\<open>group[0]\<close> is \<open>fst grp\<close> and \<^verbatim>\<open>group[1]\<close> is \<open>snd grp\<close>.
\<close>

type_synonym group_params = "real \<times> real"

text \<open>The first loop, over \<^verbatim>\<open>range(num_groups)\<close>, appending to \<open>group_lvl_params\<close>.\<close>

fun draw_group_params ::
  "(nat \<Rightarrow> real) \<Rightarrow> (nat \<Rightarrow> real) \<Rightarrow> real \<Rightarrow> real \<Rightarrow> real \<Rightarrow> nat list \<Rightarrow>
   group_params list \<Rightarrow> error + group_params list" where
  "draw_group_params intercept_draws beta_draws pop_intercept pop_beta pop_sd [] group_lvl_params =
     Inr group_lvl_params"
| "draw_group_params intercept_draws beta_draws pop_intercept pop_beta pop_sd (k # ks) group_lvl_params =
     (case np_random_normal pop_intercept pop_sd (intercept_draws k) of
        Inl e \<Rightarrow> Inl e
      | Inr intercept_grp \<Rightarrow>
          (case np_random_normal pop_beta pop_sd (beta_draws k) of
             Inl e \<Rightarrow> Inl e
           | Inr beta_grp \<Rightarrow>
               draw_group_params intercept_draws beta_draws pop_intercept pop_beta pop_sd ks
                 (group_lvl_params @ [(intercept_grp, beta_grp)])))"

text \<open>
  The body of the second loop, on the three arrays \<open>(X, Y, group_id)\<close>. The generator
  rejects a negative \<open>num_obs_per_group\<close> before any slice is computed, so the slice
  bounds are natural numbers.
\<close>

definition fill_group ::
  "(nat \<Rightarrow> nat \<Rightarrow> real) \<Rightarrow> int \<Rightarrow> nat \<Rightarrow> group_params \<Rightarrow>
   array2 \<times> array2 \<times> array2 \<Rightarrow> error + (array2 \<times> array2 \<times> array2)" where
  "fill_group epsilon_draws num_obs_per_group i grp arrays =
     (case arrays of (X, Y, group_id) \<Rightarrow>
      (case np_random_normal_n 0.0 0.01 num_obs_per_group (epsilon_draws i) of
         Inl e \<Rightarrow> Inl e
       | Inr draws \<Rightarrow>
          (let indiv_epsilon = np_reshape_column draws;
               y = plus_scalar (scalar_times (snd grp) indiv_epsilon) (fst grp);
               lo = i * nat num_obs_per_group;
               hi = i * nat num_obs_per_group + nat num_obs_per_group
           in case set_column_slice X lo hi 0 (ravel indiv_epsilon) of
                Inl e \<Rightarrow> Inl e
              | Inr X' \<Rightarrow>
                 (case set_column_slice group_id lo hi 0
                         (map (\<lambda>x. x * real i) (ravel (np_ones_like indiv_epsilon))) of
                    Inl e \<Rightarrow> Inl e
                  | Inr group_id' \<Rightarrow>
                     (case set_column_slice Y lo hi 0 (ravel y) of
                        Inl e \<Rightarrow> Inl e
                      | Inr Y' \<Rightarrow> Inr (X', Y', group_id'))))))"

text \<open>The second loop, over \<^verbatim>\<open>enumerate(group_lvl_params)\<close>.\<close>

fun fill_groups ::
  "(nat \<Rightarrow> nat \<Rightarrow> real) \<Rightarrow> int \<Rightarrow> (nat \<times> group_params) list \<Rightarrow>
   array2 \<times> array2 \<times> array2 \<Rightarrow> error + (array2 \<times> array2 \<times> array2)" where
  "fill_groups epsilon_draws num_obs_per_group [] arrays = Inr arrays"
| "fill_groups epsilon_draws num_obs_per_group ((i, grp) # rest) arrays =
     (case fill_group epsilon_draws num_obs_per_group i grp arrays of
        Inl e \<Rightarrow> Inl e
      | Inr arrays' \<Rightarrow> fill_groups epsilon_draws num_obs_per_group rest arrays')"

text \<open>
  The function returns the printed group-level parameters (its output) together with
  the tuple \<^verbatim>\<open>X, Y, group_id\<close>.
\<close>

definition generate_hierarchical_data ::
  "(nat \<Rightarrow> real) \<Rightarrow> (nat \<Rightarrow> real) \<Rightarrow> (nat \<Rightarrow> nat \<Rightarrow> real) \<Rightarrow>
   int \<Rightarrow> int \<Rightarrow> real \<Rightarrow> real \<Rightarrow> real \<Rightarrow>
   error + (group_params list \<times> (array2 \<times> array2 \<times> array2))" where
  "generate_hierarchical_data intercept_draws beta_draws epsilon_draws
       num_obs_per_group num_groups pop_intercept pop_beta pop_sd =
     (case np_zeros (num_groups * num_obs_per_group, 1) of
        Inl e \<Rightarrow> Inl e
      | Inr Y \<Rightarrow>
     (case np_zeros (num_groups * num_obs_per_group, 1) of
        Inl e \<Rightarrow> Inl e
      | Inr X \<Rightarrow>
     (case np_zeros (num_groups * num_obs_per_group, 1) of
        Inl e \<Rightarrow> Inl e
      | Inr group_id \<Rightarrow>
     (case draw_group_params intercept_draws beta_draws pop_intercept pop_beta pop_sd
             [0..<nat num_groups] [] of
        Inl e \<Rightarrow> Inl e
      | Inr group_lvl_params \<Rightarrow>
     (case fill_groups epsilon_draws num_obs_per_group (enumerate 0 group_lvl_params)
             (X, Y, group_id) of
        Inl e \<Rightarrow> Inl e
      | Inr (X', Y', group_id') \<Rightarrow> Inr (group_lvl_params, (X', Y', group_id')))))))"

subsection \<open>RMSE\<close>

text \<open>
  \<^verbatim>\<open>def RMSE(Y,y_hat): return np.sqrt(np.mean((y_hat - Y) ** 2.0))\<close>
  on one-dimensional arrays. The power \<^verbatim>\<open>** 2.0\<close> is the square.
\<close>

definition RMSE :: "vec \<Rightarrow> vec \<Rightarrow> error + float64" where
  "RMSE Y y_hat =
     (case np_sub y_hat Y of
        Inl e \<Rightarrow> Inl e
      | Inr d \<Rightarrow> Inr (np_sqrt (np_mean (map (\<lambda>x. x ^ 2) d))))"

subsection \<open>Auxiliary predicates\<close>

text \<open>
  \<open>column_array N A\<close>: \<open>A\<close> is a well-formed array of shape \<open>(N, 1)\<close>.
  \<open>in_group n i r\<close>: row \<open>r\<close> lies in the slice \<^verbatim>\<open>i*n : i*n+n\<close> of group \<open>i\<close>.
\<close>

definition column_array :: "nat \<Rightarrow> array2 \<Rightarrow> bool" where
  "column_array N A \<longleftrightarrow> wf_array2 A \<and> shape A = (N, 1)"

definition in_group :: "nat \<Rightarrow> nat \<Rightarrow> nat \<Rightarrow> bool" where
  "in_group n i r \<longleftrightarrow> i * n \<le> r \<and> r < i * n + n"

section \<open>Auxiliary lemmas\<close>

subsection \<open>The NumPy operations\<close>

lemma column_arrayD:
  "column_array N A \<Longrightarrow> length (elems A) = N"
  "column_array N A \<Longrightarrow> shape A = (N, 1)"
  "column_array N A \<Longrightarrow> r < N \<Longrightarrow> length (elems A ! r) = 1"
  by (simp_all add: column_array_def wf_array2_def list_all_length)

lemma column_arrayI:
  "length (elems A) = N \<Longrightarrow> shape A = (N, 1) \<Longrightarrow> (\<And>r. r < N \<Longrightarrow> length (elems A ! r) = 1)
   \<Longrightarrow> column_array N A"
  by (simp add: column_array_def wf_array2_def list_all_length)

lemma np_zeros_column:
  "0 \<le> m \<Longrightarrow> \<exists>A. np_zeros (m, 1) = Inr A \<and> column_array (nat m) A \<and> (\<forall>r<nat m. entry A r 0 = 0)"
  by (simp add: np_zeros_def column_array_def wf_array2_def entry_def list_all_iff)

lemma np_zeros_negative: "m < 0 \<Longrightarrow> np_zeros (m, 1) = Inl ValueError"
  by (simp add: np_zeros_def)

lemma draw_group_params_eq:
  "draw_group_params idr bdr p_int p_beta sd ks acc =
     (if ks \<noteq> [] \<and> sd < 0 then Inl ValueError
      else Inr (acc @ map (\<lambda>k. (idr k, bdr k)) ks))"
  by (induction ks arbitrary: acc) (simp_all add: np_random_normal_def)

lemma set_column_slice_eq:
  assumes sh: "shape A = (N, 1)" and hi: "hi \<le> N" and lo: "lo \<le> hi" and v: "length v = hi - lo"
  shows "set_column_slice A lo hi 0 v =
     Inr (A\<lparr>elems := map (\<lambda>r. if lo \<le> r \<and> r < hi
                   then (elems A ! r)[0 := (if length v = 1 then v ! 0 else v ! (r - lo))]
                   else elems A ! r) [0..<length (elems A)]\<rparr>)"
proof -
  have start: "min lo (fst (shape A)) = lo" using hi lo sh by simp
  have stop: "max lo (min hi (fst (shape A))) = hi" using hi lo sh by simp
  show ?thesis
    unfolding set_column_slice_def Let_def start stop using v sh by simp
qed

lemma set_column_slice_column:
  assumes A: "column_array N A" and hi: "hi \<le> N" and lo: "lo \<le> hi" and v: "length v = hi - lo"
  shows "\<exists>A'. set_column_slice A lo hi 0 v = Inr A' \<and> column_array N A' \<and>
           (\<forall>r<N. entry A' r 0 = (if lo \<le> r \<and> r < hi then v ! (r - lo) else entry A r 0))"
proof -
  note len = column_arrayD(1)[OF A] and sh = column_arrayD(2)[OF A]
  define f where "f = (\<lambda>r. if lo \<le> r \<and> r < hi
                   then (elems A ! r)[0 := (if length v = 1 then v ! 0 else v ! (r - lo))]
                   else elems A ! r)"
  define A' where "A' = A\<lparr>elems := map f [0..<length (elems A)]\<rparr>"
  have eq: "set_column_slice A lo hi 0 v = Inr A'"
    unfolding A'_def f_def by (rule set_column_slice_eq[OF sh hi lo v])
  have el: "elems A' ! r = f r" if "r < N" for r
    using that len by (simp add: A'_def)
  have col: "column_array N A'"
  proof (rule column_arrayI)
    show "length (elems A') = N" using len by (simp add: A'_def)
    show "shape A' = (N, 1)" using sh by (simp add: A'_def)
    fix r assume r: "r < N"
    show "length (elems A' ! r) = 1"
      using column_arrayD(3)[OF A r] by (simp add: el[OF r] f_def)
  qed
  have ent: "entry A' r 0 = (if lo \<le> r \<and> r < hi then v ! (r - lo) else entry A r 0)" if r: "r < N" for r
  proof (cases "lo \<le> r \<and> r < hi")
    case True
    have one: "length v = 1 \<Longrightarrow> r - lo = 0" using v True by arith
    have "f r = (elems A ! r)[0 := (if length v = 1 then v ! 0 else v ! (r - lo))]"
      using True by (simp add: f_def)
    then have "entry A' r 0 = (if length v = 1 then v ! 0 else v ! (r - lo))"
      using column_arrayD(3)[OF A r] by (simp add: entry_def el[OF r])
    also have "\<dots> = v ! (r - lo)" using one by simp
    finally show ?thesis using True by simp
  next
    case False
    then have "f r = elems A ! r" by (auto simp: f_def)
    then have "entry A' r 0 = entry A r 0" by (simp add: entry_def el[OF r])
    then show ?thesis using False by auto
  qed
  show ?thesis using eq col ent by blast
qed

lemma concat_singletons: "concat (map (\<lambda>x. [f x]) v) = map f v"
  by (induction v) simp_all

lemma ravel_column: "ravel (np_reshape_column v) = v"
  using concat_singletons[of "\<lambda>x. x" v] by (simp add: ravel_def np_reshape_column_def)

lemma ravel_ones_like_column: "ravel (np_ones_like (np_reshape_column v)) = map (\<lambda>_. 1) v"
  using concat_singletons[of "\<lambda>_. 1" v]
  by (simp add: ravel_def np_ones_like_def np_reshape_column_def comp_def)

lemma ravel_affine_column:
  "ravel (plus_scalar (scalar_times b (np_reshape_column v)) a) = map (\<lambda>x. b * x + a) v"
  using concat_singletons[of "\<lambda>x. b * x + a" v]
  by (simp add: ravel_def plus_scalar_def scalar_times_def np_reshape_column_def comp_def)

lemma np_random_normal_n_ok:
  "0 \<le> sc \<Longrightarrow> 0 \<le> n \<Longrightarrow> np_random_normal_n loc sc n f = Inr (map f [0..<nat n])"
  by (simp add: np_random_normal_n_def)

subsection \<open>The loops of generate_hierarchical_data\<close>

lemma fill_group_column:
  assumes X: "column_array N X" and Y: "column_array N Y" and G: "column_array N G"
    and n: "0 \<le> n" and bound: "i * nat n + nat n \<le> N"
  shows "\<exists>X' Y' G'. fill_group eps n i grp (X, Y, G) = Inr (X', Y', G') \<and>
           column_array N X' \<and> column_array N Y' \<and> column_array N G' \<and>
           (\<forall>r<N. entry X' r 0 = (if i * nat n \<le> r \<and> r < i * nat n + nat n
                                   then eps i (r - i * nat n) else entry X r 0) \<and>
                   entry Y' r 0 = (if i * nat n \<le> r \<and> r < i * nat n + nat n
                                   then snd grp * eps i (r - i * nat n) + fst grp else entry Y r 0) \<and>
                   entry G' r 0 = (if i * nat n \<le> r \<and> r < i * nat n + nat n
                                   then real i else entry G r 0))"
proof -
  define lo where "lo = i * nat n"
  define hi where "hi = lo + nat n"
  define d where "d = map (eps i) [0..<nat n]"
  have lohi: "lo \<le> hi" "hi \<le> N" and len: "length d = hi - lo"
    using bound by (simp_all add: lo_def hi_def d_def)
  have draws: "np_random_normal_n loc (1 / 100) n (eps i) = Inr d" for loc
    using n by (simp add: np_random_normal_n_ok d_def)
  have nth_d: "d ! (r - lo) = eps i (r - lo)" if "lo \<le> r" "r < hi" for r
    using that by (simp add: d_def hi_def lo_def)
  obtain X' where X': "set_column_slice X lo hi 0 d = Inr X'" "column_array N X'"
      "\<And>r. r < N \<Longrightarrow> entry X' r 0 = (if lo \<le> r \<and> r < hi then d ! (r - lo) else entry X r 0)"
    using set_column_slice_column[OF X lohi(2) lohi(1) len] by blast
  define gv where "gv = map (\<lambda>x. x * real i) (ravel (np_ones_like (np_reshape_column d)))"
  define yv where "yv = ravel (plus_scalar (scalar_times (snd grp) (np_reshape_column d)) (fst grp))"
  have gv: "gv = map (\<lambda>_. real i) d"
    by (simp add: gv_def ravel_ones_like_column)
  have yv: "yv = map (\<lambda>x. snd grp * x + fst grp) d"
    by (simp add: yv_def ravel_affine_column)
  have lenG: "length gv = hi - lo" and lenY: "length yv = hi - lo"
    using len by (simp_all add: gv yv)
  obtain G' where G': "set_column_slice G lo hi 0 gv = Inr G'" "column_array N G'"
      "\<And>r. r < N \<Longrightarrow> entry G' r 0 = (if lo \<le> r \<and> r < hi then gv ! (r - lo) else entry G r 0)"
    using set_column_slice_column[OF G lohi(2) lohi(1) lenG] by blast
  obtain Y' where Y': "set_column_slice Y lo hi 0 yv = Inr Y'" "column_array N Y'"
      "\<And>r. r < N \<Longrightarrow> entry Y' r 0 = (if lo \<le> r \<and> r < hi then yv ! (r - lo) else entry Y r 0)"
    using set_column_slice_column[OF Y lohi(2) lohi(1) lenY] by blast
  have eq: "fill_group eps n i grp (X, Y, G) = Inr (X', Y', G')"
    unfolding fill_group_def
    by (simp add: draws Let_def ravel_column lo_def[symmetric] hi_def[symmetric]
          gv_def[symmetric] yv_def[symmetric] X'(1) G'(1) Y'(1) del: map_map)
  have ents: "entry X' r 0 = (if lo \<le> r \<and> r < hi then eps i (r - lo) else entry X r 0) \<and>
              entry Y' r 0 = (if lo \<le> r \<and> r < hi then snd grp * eps i (r - lo) + fst grp else entry Y r 0) \<and>
              entry G' r 0 = (if lo \<le> r \<and> r < hi then real i else entry G r 0)" if r: "r < N" for r
  proof (cases "lo \<le> r \<and> r < hi")
    case True
    then have idx: "r - lo < length d" using len by arith
    show ?thesis using True X'(3)[OF r] Y'(3)[OF r] G'(3)[OF r] nth_d[of r] idx by (simp add: gv yv)
  next
    case False
    then show ?thesis using X'(3)[OF r] Y'(3)[OF r] G'(3)[OF r] by auto
  qed
  show ?thesis
    using eq X'(2) Y'(2) G'(2) ents unfolding lo_def hi_def by blast
qed

lemma in_group_div: "in_group n i r \<longleftrightarrow> 0 < n \<and> r div n = i"
proof
  assume g: "in_group n i r"
  then have pos: "0 < n" by (auto simp: in_group_def)
  from g have "i * n \<le> r" "r < Suc i * n" by (simp_all add: in_group_def)
  then have "i \<le> r div n" "r div n < Suc i"
    using pos by (simp_all add: less_eq_div_iff_mult_less_eq div_less_iff_less_mult)
  then show "0 < n \<and> r div n = i" using pos by simp
next
  assume a: "0 < n \<and> r div n = i"
  then have "i * n \<le> r" "r < Suc i * n"
    using less_eq_div_iff_mult_less_eq[of n i r] div_less_iff_less_mult[of n r "Suc i"] by auto
  then show "in_group n i r" by (simp add: in_group_def)
qed

lemma in_group_unique: "in_group n i r \<Longrightarrow> in_group n j r \<Longrightarrow> i = j"
  by (simp add: in_group_div)

lemma fill_groups_column:
  assumes n: "0 \<le> n"
    and bound: "\<forall>i\<in>fst ` set ps. i * nat n + nat n \<le> N"
    and dist: "distinct (map fst ps)"
    and X: "column_array N X" and Y: "column_array N Y" and G: "column_array N G"
  shows "\<exists>X' Y' G'. fill_groups eps n ps (X, Y, G) = Inr (X', Y', G') \<and>
           column_array N X' \<and> column_array N Y' \<and> column_array N G' \<and>
           (\<forall>r<N.
              (\<forall>i grp. (i, grp) \<in> set ps \<and> in_group (nat n) i r \<longrightarrow>
                 entry X' r 0 = eps i (r - i * nat n) \<and>
                 entry Y' r 0 = snd grp * eps i (r - i * nat n) + fst grp \<and>
                 entry G' r 0 = real i) \<and>
              ((\<forall>i\<in>fst ` set ps. \<not> in_group (nat n) i r) \<longrightarrow>
                 entry X' r 0 = entry X r 0 \<and> entry Y' r 0 = entry Y r 0 \<and>
                 entry G' r 0 = entry G r 0))"
  using bound dist X Y G
proof (induction ps arbitrary: X Y G)
  case Nil
  then show ?case by simp
next
  case (Cons p ps)
  obtain i grp where p: "p = (i, grp)" by (cases p)
  have bi: "i * nat n + nat n \<le> N" using Cons.prems(1) p by simp
  obtain X1 Y1 G1 where step: "fill_group eps n i grp (X, Y, G) = Inr (X1, Y1, G1)"
      and c1: "column_array N X1" "column_array N Y1" "column_array N G1"
      and e1: "\<And>r. r < N \<Longrightarrow>
          entry X1 r 0 = (if in_group (nat n) i r then eps i (r - i * nat n) else entry X r 0) \<and>
          entry Y1 r 0 = (if in_group (nat n) i r then snd grp * eps i (r - i * nat n) + fst grp
                          else entry Y r 0) \<and>
          entry G1 r 0 = (if in_group (nat n) i r then real i else entry G r 0)"
    using fill_group_column[OF Cons.prems(3,4,5) n bi, of eps grp]
    unfolding in_group_def by blast
  have b': "\<forall>i\<in>fst ` set ps. i * nat n + nat n \<le> N" using Cons.prems(1) by simp
  have d': "distinct (map fst ps)" and fresh: "i \<notin> fst ` set ps"
    using Cons.prems(2) p by simp_all
  obtain X' Y' G' where rest: "fill_groups eps n ps (X1, Y1, G1) = Inr (X', Y', G')"
      and c': "column_array N X'" "column_array N Y'" "column_array N G'"
      and e': "\<And>r. r < N \<Longrightarrow>
          (\<forall>j grp'. (j, grp') \<in> set ps \<and> in_group (nat n) j r \<longrightarrow>
             entry X' r 0 = eps j (r - j * nat n) \<and>
             entry Y' r 0 = snd grp' * eps j (r - j * nat n) + fst grp' \<and>
             entry G' r 0 = real j) \<and>
          ((\<forall>j\<in>fst ` set ps. \<not> in_group (nat n) j r) \<longrightarrow>
             entry X' r 0 = entry X1 r 0 \<and> entry Y' r 0 = entry Y1 r 0 \<and>
             entry G' r 0 = entry G1 r 0)"
    using Cons.IH[OF b' d' c1] by blast
  have eq: "fill_groups eps n (p # ps) (X, Y, G) = Inr (X', Y', G')"
    by (simp add: p step rest)
  have ents: "(\<forall>j grp'. (j, grp') \<in> set (p # ps) \<and> in_group (nat n) j r \<longrightarrow>
             entry X' r 0 = eps j (r - j * nat n) \<and>
             entry Y' r 0 = snd grp' * eps j (r - j * nat n) + fst grp' \<and>
             entry G' r 0 = real j) \<and>
          ((\<forall>j\<in>fst ` set (p # ps). \<not> in_group (nat n) j r) \<longrightarrow>
             entry X' r 0 = entry X r 0 \<and> entry Y' r 0 = entry Y r 0 \<and>
             entry G' r 0 = entry G r 0)" if r: "r < N" for r
  proof (intro conjI allI impI)
    fix j grp' assume a: "(j, grp') \<in> set (p # ps) \<and> in_group (nat n) j r"
    show "entry X' r 0 = eps j (r - j * nat n)"
      "entry Y' r 0 = snd grp' * eps j (r - j * nat n) + fst grp'"
      "entry G' r 0 = real j"
    proof -
      consider (head) "j = i" "grp' = grp" | (tail) "(j, grp') \<in> set ps"
        using a p by auto
      then have "entry X' r 0 = eps j (r - j * nat n) \<and>
          entry Y' r 0 = snd grp' * eps j (r - j * nat n) + fst grp' \<and> entry G' r 0 = real j"
      proof cases
        case head
        have "\<forall>k\<in>fst ` set ps. \<not> in_group (nat n) k r"
          using fresh a head in_group_unique by blast
        then show ?thesis using e'[OF r] e1[OF r] a head by simp
      next
        case tail
        then show ?thesis using e'[OF r] a by blast
      qed
      then show "entry X' r 0 = eps j (r - j * nat n)"
        "entry Y' r 0 = snd grp' * eps j (r - j * nat n) + fst grp'"
        "entry G' r 0 = real j" by simp_all
    qed
  next
    assume a: "\<forall>j\<in>fst ` set (p # ps). \<not> in_group (nat n) j r"
    then have "\<not> in_group (nat n) i r" "\<forall>j\<in>fst ` set ps. \<not> in_group (nat n) j r"
      using p by simp_all
    then show "entry X' r 0 = entry X r 0" "entry Y' r 0 = entry Y r 0" "entry G' r 0 = entry G r 0"
      using e'[OF r] e1[OF r] by simp_all
  qed
  show ?case using eq c' ents by blast
qed

lemma group_rows_bound: "i < g \<Longrightarrow> i * n + n \<le> g * (n::nat)"
proof -
  assume "i < g"
  then have "Suc i * n \<le> g * n" by (intro mult_le_mono1) simp
  then show ?thesis by simp
qed

lemma generate_hierarchical_data_returns:
  assumes n: "0 \<le> n" and g: "0 \<le> g" and sd: "0 \<le> sd \<or> g = 0"
  shows "\<exists>X Y G. generate_hierarchical_data idr bdr eps n g p_int p_beta sd =
             Inr (map (\<lambda>k. (idr k, bdr k)) [0..<nat g], (X, Y, G)) \<and>
           column_array (nat g * nat n) X \<and> column_array (nat g * nat n) Y \<and>
           column_array (nat g * nat n) G \<and>
           (\<forall>i<nat g. \<forall>r. in_group (nat n) i r \<longrightarrow>
              entry X r 0 = eps i (r - i * nat n) \<and>
              entry Y r 0 = bdr i * eps i (r - i * nat n) + idr i \<and>
              entry G r 0 = real i)"
proof -
  define N where "N = nat g * nat n"
  define ps where "ps = map (\<lambda>k. (idr k, bdr k)) [0..<nat g]"
  have gn: "0 \<le> g * n" and natgn: "nat (g * n) = N"
    using n g by (simp_all add: N_def nat_mult_distrib)
  obtain Z where Z: "np_zeros (g * n, 1) = Inr Z" "column_array N Z"
    using np_zeros_column[OF gn] natgn by auto
  have params: "draw_group_params idr bdr p_int p_beta sd [0..<nat g] [] = Inr ps"
    using sd g by (auto simp: draw_group_params_eq ps_def)
  have lenps: "length ps = nat g" by (simp add: ps_def)
  have bound: "\<forall>i\<in>fst ` set (enumerate 0 ps). i * nat n + nat n \<le> N"
    using group_rows_bound[of _ "nat g" "nat n"]
    by (auto simp: in_set_enumerate_eq lenps N_def)
  have dist: "distinct (map fst (enumerate 0 ps))" by simp
  obtain X Y G where fill: "fill_groups eps n (enumerate 0 ps) (Z, Z, Z) = Inr (X, Y, G)"
      and cols: "column_array N X" "column_array N Y" "column_array N G"
      and ents: "\<And>r. r < N \<Longrightarrow>
          (\<forall>i grp. (i, grp) \<in> set (enumerate 0 ps) \<and> in_group (nat n) i r \<longrightarrow>
             entry X r 0 = eps i (r - i * nat n) \<and>
             entry Y r 0 = snd grp * eps i (r - i * nat n) + fst grp \<and>
             entry G r 0 = real i)"
    using fill_groups_column[OF n bound dist Z(2) Z(2) Z(2), of eps] by blast
  have eq: "generate_hierarchical_data idr bdr eps n g p_int p_beta sd = Inr (ps, (X, Y, G))"
    by (simp add: generate_hierarchical_data_def Z(1) params fill)
  have final: "entry X r 0 = eps i (r - i * nat n) \<and>
               entry Y r 0 = bdr i * eps i (r - i * nat n) + idr i \<and>
               entry G r 0 = real i" if i: "i < nat g" and r: "in_group (nat n) i r" for i r
  proof -
    have "r < i * nat n + nat n" using r by (simp add: in_group_def)
    then have rN: "r < N" using group_rows_bound[OF i, of "nat n"] by (simp add: N_def)
    have mem: "(i, (idr i, bdr i)) \<in> set (enumerate 0 ps)"
      using i by (simp add: in_set_enumerate_eq lenps ps_def)
    show ?thesis using ents[OF rN] mem r by fastforce
  qed
  show ?thesis using eq cols final unfolding ps_def N_def by blast
qed

lemma generate_hierarchical_data_no_groups:
  assumes g: "g \<le> 0" and gn: "0 \<le> g * n"
  shows "\<exists>Z. np_zeros (g * n, 1) = Inr Z \<and>
           generate_hierarchical_data idr bdr eps n g p_int p_beta sd = Inr ([], (Z, Z, Z))"
proof -
  obtain Z where Z: "np_zeros (g * n, 1) = Inr Z"
    using np_zeros_column[OF gn] by auto
  have "nat g = 0" using g by simp
  then show ?thesis
    by (simp add: generate_hierarchical_data_def Z enumerate_simps)
qed

lemma generate_hierarchical_data_raises:
  assumes "g * n < 0 \<or> (0 < g \<and> sd < 0)"
  shows "generate_hierarchical_data idr bdr eps n g p_int p_beta sd = Inl ValueError"
proof (cases "g * n < 0")
  case True
  then show ?thesis
    by (simp add: generate_hierarchical_data_def np_zeros_negative)
next
  case False
  then have gn: "0 \<le> g * n" and g: "0 < g" and sd: "sd < 0" using assms by auto
  obtain Z where Z: "np_zeros (g * n, 1) = Inr Z"
    using np_zeros_column[OF gn] by auto
  have "[0..<nat g] \<noteq> []" using g by simp
  then have "draw_group_params idr bdr p_int p_beta sd [0..<nat g] [] = Inl ValueError"
    using sd by (simp add: draw_group_params_eq)
  then show ?thesis
    by (simp add: generate_hierarchical_data_def Z)
qed

lemma in_group_offset: "j < n \<Longrightarrow> in_group n i (i * n + j)"
  by (simp add: in_group_def)

lemma generate_hierarchical_data_Inr_cases:
  assumes res: "generate_hierarchical_data idr bdr eps n g p_int p_beta sd = Inr (params, (X, Y, G))"
  shows "(g \<le> 0 \<and> params = []) \<or> (0 < g \<and> 0 \<le> n \<and> 0 \<le> sd)"
proof -
  have nr: "\<not> (g * n < 0 \<or> (0 < g \<and> sd < 0))"
    using generate_hierarchical_data_raises[where g=g and n=n and sd=sd and idr=idr and bdr=bdr and eps=eps and p_int=p_int and p_beta=p_beta] res by auto
  show ?thesis
  proof (cases "g \<le> 0")
    case True
    then show ?thesis
      using generate_hierarchical_data_no_groups[where g=g and n=n and sd=sd and idr=idr and bdr=bdr and eps=eps and p_int=p_int and p_beta=p_beta] nr res by auto
  next
    case False
    then have "0 \<le> n" using nr by (simp add: zero_le_mult_iff not_less)
    then show ?thesis using False nr by auto
  qed
qed

subsection \<open>make_random_OLS_data and RMSE\<close>

lemma make_random_OLS_data_eq:
  assumes "0 \<le> num_obs"
  shows "make_random_OLS_data Xd Ed num_obs a b =
           Inr (map Xd [0..<nat num_obs], map (\<lambda>i. a + b * Xd i + Ed i) [0..<nat num_obs])"
proof -
  have "map2 (+) (map (\<lambda>v. a + v) (map (\<lambda>x. b * x) (map Xd [0..<k]))) (map Ed [0..<k])
          = map (\<lambda>i. a + b * Xd i + Ed i) [0..<k]" for k
    by (rule nth_equalityI) simp_all
  then show ?thesis
    using assms
    by (simp add: make_random_OLS_data_def np_random_normal_n_ok np_add_def np_broadcast2_def
          del: map_map)
qed

lemma make_random_OLS_data_negative:
  "num_obs < 0 \<Longrightarrow> make_random_OLS_data Xd Ed num_obs a b = Inl ValueError"
  by (simp add: make_random_OLS_data_def np_random_normal_n_def)

lemma sum_list_squares:
  "length a = length b \<Longrightarrow>
   sum_list (map (\<lambda>x. x ^ 2) (map2 (-) a b)) = (\<Sum>i<length a. (a ! i - b ! i) ^ 2)"
  by (simp add: sum_list_sum_nth atLeast0LessThan)

lemma RMSE_eq:
  assumes len: "length Y = length y_hat" and ne: "Y \<noteq> []"
  shows "RMSE Y y_hat =
           Inr (Num (sqrt ((\<Sum>i<length Y. (y_hat ! i - Y ! i) ^ 2) / real (length Y))))"
proof -
  have nonneg: "0 \<le> (\<Sum>i<length Y. (y_hat ! i - Y ! i) ^ 2) / real (length Y)"
    by (intro divide_nonneg_nonneg sum_nonneg) simp_all
  have ne': "y_hat \<noteq> []" using len ne by auto
  show ?thesis
    using len ne ne' nonneg sum_list_squares[of y_hat Y]
    by (simp add: RMSE_def np_sub_def np_broadcast2_def np_mean_def not_less del: map_map)
qed

section \<open>Properties of the notebook's functions\<close>

subsection \<open>generate_hierarchical_data\<close>

text \<open>
  C2. For every call of generate_hierarchical_data, with the random draws as inputs,
  every generated observation satisfies Y = beta_i * X + intercept_i exactly, where
  (intercept_i, beta_i) are the parameters drawn for its group i, and X is the array
  indiv_epsilon itself: observation j of group i is row i * n + j, its X is the j-th
  draw of group i, and nothing is added to Y. The call returns whenever the sizes and
  pop_sd are non-negative.
\<close>

theorem hierarchical_data_no_noise:
  "(0 \<le> n \<and> 0 \<le> g \<and> 0 \<le> sd \<longrightarrow>
      (\<exists>res. generate_hierarchical_data idr bdr eps n g p_int p_beta sd = Inr res)) \<and>
   (\<forall>params X Y G.
      generate_hierarchical_data idr bdr eps n g p_int p_beta sd = Inr (params, (X, Y, G)) \<longrightarrow>
        length params = nat g \<and>
        (\<forall>i<nat g. \<forall>j<nat n.
           params ! i = (idr i, bdr i) \<and>
           entry X (i * nat n + j) 0 = eps i j \<and>
           entry Y (i * nat n + j) 0
             = snd (params ! i) * entry X (i * nat n + j) 0 + fst (params ! i)))"
proof -
  have total: "\<exists>res. generate_hierarchical_data idr bdr eps n g p_int p_beta sd = Inr res"
    if "0 \<le> n \<and> 0 \<le> g \<and> 0 \<le> sd"
    using generate_hierarchical_data_returns[where g=g and n=n and sd=sd and idr=idr and bdr=bdr
        and eps=eps and p_int=p_int and p_beta=p_beta] that by auto
  have main: "length params = nat g \<and>
        (\<forall>i<nat g. \<forall>j<nat n.
           params ! i = (idr i, bdr i) \<and>
           entry X (i * nat n + j) 0 = eps i j \<and>
           entry Y (i * nat n + j) 0
             = snd (params ! i) * entry X (i * nat n + j) 0 + fst (params ! i))"
    if res: "generate_hierarchical_data idr bdr eps n g p_int p_beta sd = Inr (params, (X, Y, G))"
    for params X Y G
  proof (cases "g \<le> 0")
    case True
    then show ?thesis using generate_hierarchical_data_Inr_cases[OF res] by auto
  next
    case False
    with generate_hierarchical_data_Inr_cases[OF res]
    have g: "0 \<le> g" and n: "0 \<le> n" and sd: "0 \<le> sd \<or> g = 0" by auto
    obtain X' Y' G' where eq: "generate_hierarchical_data idr bdr eps n g p_int p_beta sd =
               Inr (map (\<lambda>k. (idr k, bdr k)) [0..<nat g], (X', Y', G'))"
      and ents: "\<And>i r. i < nat g \<Longrightarrow> in_group (nat n) i r \<Longrightarrow>
                entry X' r 0 = eps i (r - i * nat n) \<and>
                entry Y' r 0 = bdr i * eps i (r - i * nat n) + idr i \<and>
                entry G' r 0 = real i"
      using generate_hierarchical_data_returns[where g=g and n=n and sd=sd and idr=idr and bdr=bdr
          and eps=eps and p_int=p_int and p_beta=p_beta] n g sd by auto
    from eq res have same: "params = map (\<lambda>k. (idr k, bdr k)) [0..<nat g]" "X' = X" "Y' = Y"
      by simp_all
    have "params ! i = (idr i, bdr i) \<and> entry X (i * nat n + j) 0 = eps i j \<and>
          entry Y (i * nat n + j) 0 = snd (params ! i) * entry X (i * nat n + j) 0 + fst (params ! i)"
      if i: "i < nat g" and j: "j < nat n" for i j
      using ents[OF i in_group_offset[OF j, of i]] i same by simp
    then show ?thesis using same(1) by simp
  qed
  show ?thesis using total main by blast
qed

theorem hierarchical_data_no_noise_witness:
  "(0::int) \<le> 2 \<and> (0::int) \<le> 3 \<and> (0::real) \<le> 1 \<and>
   generate_hierarchical_data (\<lambda>k. real k) (\<lambda>k. 10 + real k) (\<lambda>i j. real (i * 100 + j)) 2 3 0 0 1
     = Inr ([(0, 10), (1, 11), (2, 12)],
        (\<lparr>shape = (6, 1), elems = [[0], [1], [100], [101], [200], [201]]\<rparr>,
         \<lparr>shape = (6, 1), elems = [[0], [10], [1101], [1112], [2402], [2414]]\<rparr>,
         \<lparr>shape = (6, 1), elems = [[0], [0], [1], [1], [2], [2]]\<rparr>)) \<and>
   entry \<lparr>shape = (6, 1), elems = [[0], [10], [1101], [1112], [2402], [2414]]\<rparr> (1 * nat 2 + 1) 0
     = snd (([(0, 10), (1, 11), (2, 12)] :: (real \<times> real) list) ! 1)
       * entry \<lparr>shape = (6, 1), elems = [[0], [1], [100], [101], [200], [201]]\<rparr> (1 * nat 2 + 1) 0
       + fst (([(0, 10), (1, 11), (2, 12)] :: (real \<times> real) list) ! 1)"
proof -
  have run: "generate_hierarchical_data (\<lambda>k. real k) (\<lambda>k. 10 + real k) (\<lambda>i j. real (i * 100 + j)) 2 3 0 0 1
     = Inr ([(0, 10), (1, 11), (2, 12)],
        (\<lparr>shape = (6, 1), elems = [[0], [1], [100], [101], [200], [201]]\<rparr>,
         \<lparr>shape = (6, 1), elems = [[0], [10], [1101], [1112], [2402], [2414]]\<rparr>,
         \<lparr>shape = (6, 1), elems = [[0], [0], [1], [1], [2], [2]]\<rparr>))"
    by code_simp
  have i: "(1::nat) < nat 3" and j: "(1::nat) < nat 2" by simp_all
  note inst = hierarchical_data_no_noise[THEN conjunct2, rule_format, OF run,
      THEN conjunct2, rule_format, OF i j, THEN conjunct2, THEN conjunct2]
  have hyps: "(0::int) \<le> 2 \<and> (0::int) \<le> 3 \<and> (0::real) \<le> 1" by simp
  show ?thesis using hyps conjI[OF run inst] by simp
qed

text \<open>
  C4. For every call with num_obs_per_group = n >= 1 and num_groups = g >= 0, the arrays
  X, Y and group_id that the call returns all have shape (g * n, 1); row r of group_id
  holds r div n, which is below g; and the rows labelled i are exactly the n
  consecutive rows from i * n. The call returns whenever pop_sd is non-negative or
  there is no group.
\<close>

theorem hierarchical_data_shapes:
  assumes n: "1 \<le> n" and g: "0 \<le> g"
  shows "(0 \<le> sd \<or> g = 0 \<longrightarrow>
            (\<exists>res. generate_hierarchical_data idr bdr eps n g p_int p_beta sd = Inr res)) \<and>
         (\<forall>params X Y G.
            generate_hierarchical_data idr bdr eps n g p_int p_beta sd = Inr (params, (X, Y, G)) \<longrightarrow>
              shape X = (nat (g * n), 1) \<and> shape Y = (nat (g * n), 1) \<and>
              shape G = (nat (g * n), 1) \<and>
              wf_array2 X \<and> wf_array2 Y \<and> wf_array2 G \<and>
              (\<forall>r<nat (g * n). entry G r 0 = real (r div nat n) \<and> r div nat n < nat g) \<and>
              (\<forall>i<nat g. {r. r < nat (g * n) \<and> entry G r 0 = real i}
                           = {i * nat n ..< i * nat n + nat n}))"
proof -
  have n0: "0 \<le> n" and npos: "0 < nat n" using n by simp_all
  have N: "nat (g * n) = nat g * nat n" using n0 g by (simp add: nat_mult_distrib)
  have total: "\<exists>res. generate_hierarchical_data idr bdr eps n g p_int p_beta sd = Inr res"
    if "0 \<le> sd \<or> g = 0"
    using generate_hierarchical_data_returns[where g=g and n=n and sd=sd and idr=idr and bdr=bdr
        and eps=eps and p_int=p_int and p_beta=p_beta] n0 g that by auto
  have main: "shape X = (nat (g * n), 1) \<and> shape Y = (nat (g * n), 1) \<and>
              shape G = (nat (g * n), 1) \<and>
              wf_array2 X \<and> wf_array2 Y \<and> wf_array2 G \<and>
              (\<forall>r<nat (g * n). entry G r 0 = real (r div nat n) \<and> r div nat n < nat g) \<and>
              (\<forall>i<nat g. {r. r < nat (g * n) \<and> entry G r 0 = real i}
                           = {i * nat n ..< i * nat n + nat n})"
    if res: "generate_hierarchical_data idr bdr eps n g p_int p_beta sd = Inr (params, (X, Y, G))"
    for params X Y G
  proof -
    have sd: "0 \<le> sd \<or> g = 0"
      using generate_hierarchical_data_Inr_cases[OF res] g by auto
    obtain X' Y' G' where eq: "generate_hierarchical_data idr bdr eps n g p_int p_beta sd =
               Inr (map (\<lambda>k. (idr k, bdr k)) [0..<nat g], (X', Y', G'))"
      and cols: "column_array (nat g * nat n) X'" "column_array (nat g * nat n) Y'"
                "column_array (nat g * nat n) G'"
      and ents: "\<And>i r. i < nat g \<Longrightarrow> in_group (nat n) i r \<Longrightarrow> entry G' r 0 = real i"
      using generate_hierarchical_data_returns[where g=g and n=n and sd=sd and idr=idr and bdr=bdr
          and eps=eps and p_int=p_int and p_beta=p_beta] n0 g sd by auto
    from eq res have same: "X' = X" "Y' = Y" "G' = G" by simp_all
    have shapes: "shape X = (nat (g * n), 1)" "shape Y = (nat (g * n), 1)"
      "shape G = (nat (g * n), 1)" "wf_array2 X" "wf_array2 Y" "wf_array2 G"
      using cols same N by (simp_all add: column_array_def)
    have row: "entry G r 0 = real (r div nat n) \<and> r div nat n < nat g" if r: "r < nat (g * n)" for r
    proof -
      have lt: "r div nat n < nat g"
        using r N npos by (simp add: div_less_iff_less_mult)
      have "in_group (nat n) (r div nat n) r" using npos by (simp add: in_group_div)
      then show ?thesis using ents[OF lt] lt same by simp
    qed
    have label: "{r. r < nat (g * n) \<and> entry G r 0 = real i} = {i * nat n ..< i * nat n + nat n}"
      if i: "i < nat g" for i
    proof (intro set_eqI iffI)
      fix r assume "r \<in> {r. r < nat (g * n) \<and> entry G r 0 = real i}"
      then have "r < nat (g * n)" "entry G r 0 = real i" by simp_all
      then have "r div nat n = i" using row by simp
      then have "in_group (nat n) i r" using npos by (simp add: in_group_div)
      then show "r \<in> {i * nat n ..< i * nat n + nat n}" by (simp add: in_group_def)
    next
      fix r assume "r \<in> {i * nat n ..< i * nat n + nat n}"
      then have ig: "in_group (nat n) i r" by (simp add: in_group_def)
      then have "r < i * nat n + nat n" by (simp add: in_group_def)
      then have "r < nat (g * n)" using group_rows_bound[OF i, of "nat n"] N by simp
      then show "r \<in> {r. r < nat (g * n) \<and> entry G r 0 = real i}"
        using ents[OF i ig] same by simp
    qed
    show ?thesis using shapes row label by blast
  qed
  show ?thesis using total main by blast
qed

theorem hierarchical_data_shapes_witness:
  "(1::int) \<le> 2 \<and> (0::int) \<le> 3 \<and>
   generate_hierarchical_data (\<lambda>k. real k) (\<lambda>k. 10 + real k) (\<lambda>i j. real (i * 100 + j)) 2 3 0 0 1
     = Inr ([(0, 10), (1, 11), (2, 12)],
        (\<lparr>shape = (6, 1), elems = [[0], [1], [100], [101], [200], [201]]\<rparr>,
         \<lparr>shape = (6, 1), elems = [[0], [10], [1101], [1112], [2402], [2414]]\<rparr>,
         \<lparr>shape = (6, 1), elems = [[0], [0], [1], [1], [2], [2]]\<rparr>)) \<and>
   shape \<lparr>shape = (6, 1), elems = [[0], [0], [1], [1], [2], [2 :: real]]\<rparr> = (nat (3 * 2), 1) \<and>
   entry \<lparr>shape = (6, 1), elems = [[0], [0], [1], [1], [2], [2]]\<rparr> 3 0 = real (3 div nat 2) \<and>
   3 div nat 2 < nat 3"
proof -
  have run: "generate_hierarchical_data (\<lambda>k. real k) (\<lambda>k. 10 + real k) (\<lambda>i j. real (i * 100 + j)) 2 3 0 0 1
     = Inr ([(0, 10), (1, 11), (2, 12)],
        (\<lparr>shape = (6, 1), elems = [[0], [1], [100], [101], [200], [201]]\<rparr>,
         \<lparr>shape = (6, 1), elems = [[0], [10], [1101], [1112], [2402], [2414]]\<rparr>,
         \<lparr>shape = (6, 1), elems = [[0], [0], [1], [1], [2], [2]]\<rparr>))"
    by code_simp
  have n: "(1::int) \<le> 2" and g: "(0::int) \<le> 3" and r: "(3::nat) < nat (3 * 2)" by simp_all
  note inst = hierarchical_data_shapes[OF n g, THEN conjunct2, rule_format, OF run]
  note sh = inst[THEN conjunct2, THEN conjunct2, THEN conjunct1]
  note row = inst[THEN conjunct2, THEN conjunct2, THEN conjunct2, THEN conjunct2, THEN conjunct2,
      THEN conjunct2, THEN conjunct1, rule_format, OF r]
  show ?thesis using n g run sh row by simp
qed

subsection \<open>make_random_OLS_data\<close>

text \<open>
  C3. For every call make_random_OLS_data(num_obs, intercept, beta) with num_obs >= 0,
  with the two normal draws X and epsilon as inputs of length num_obs, the function
  returns the pair (X, y), both of length num_obs, with
  y[i] = intercept + beta * X[i] + epsilon[i] at every index i.
\<close>

theorem make_random_OLS_data_correct:
  assumes "0 \<le> num_obs"
  shows "\<exists>X y. make_random_OLS_data X_draws epsilon_draws num_obs intercept beta = Inr (X, y) \<and>
           X = map X_draws [0..<nat num_obs] \<and>
           length X = nat num_obs \<and> length y = nat num_obs \<and>
           (\<forall>i<nat num_obs.
              y ! i = intercept + beta * X ! i + map epsilon_draws [0..<nat num_obs] ! i)"
  using assms by (simp add: make_random_OLS_data_eq)

theorem make_random_OLS_data_correct_witness:
  "(0::int) \<le> 3 \<and>
   (\<exists>X y. make_random_OLS_data (\<lambda>k. real k) (\<lambda>k. 10 * real k) 3 1 2 = Inr (X, y) \<and>
      X = map (\<lambda>k. real k) [0..<nat 3] \<and> length X = nat 3 \<and> length y = nat 3 \<and>
      y ! 2 = 1 + 2 * X ! 2 + map (\<lambda>k. 10 * real k) [0..<nat 3] ! 2)"
proof -
  have h: "(0::int) \<le> 3" by simp
  from make_random_OLS_data_correct[OF h, of "\<lambda>k. real k" "\<lambda>k. 10 * real k" 1 2]
  obtain X y where "make_random_OLS_data (\<lambda>k. real k) (\<lambda>k. 10 * real k) 3 1 2 = Inr (X, y)"
    "X = map (\<lambda>k. real k) [0..<nat 3]" "length X = nat 3" "length y = nat 3"
    "\<forall>i<nat 3. y ! i = 1 + 2 * X ! i + map (\<lambda>k. 10 * real k) [0..<nat 3] ! i"
    by blast
  moreover have "(2::nat) < nat 3" by simp
  ultimately show ?thesis using h by blast
qed

subsection \<open>RMSE\<close>

text \<open>
  C5, amended. For all non-empty real vectors Y and y_hat of equal length,
  RMSE(Y, y_hat) is the square root of the mean of the squared differences, it is
  symmetric (RMSE(Y, y_hat) = RMSE(y_hat, Y)), it is a non-negative number, and
  RMSE(Y, Y) = 0.
\<close>

theorem RMSE_properties:
  assumes len: "length Y = length y_hat" and ne: "Y \<noteq> []"
  shows "RMSE Y y_hat =
           Inr (Num (sqrt ((\<Sum>i<length Y. (y_hat ! i - Y ! i) ^ 2) / real (length Y)))) \<and>
         RMSE Y y_hat = RMSE y_hat Y \<and>
         (\<exists>v. RMSE Y y_hat = Inr (Num v) \<and> 0 \<le> v) \<and>
         RMSE Y Y = Inr (Num 0)"
proof -
  have ne': "y_hat \<noteq> []" using len ne by auto
  have sym: "(\<Sum>i<length Y. (y_hat ! i - Y ! i) ^ 2) = (\<Sum>i<length y_hat. (Y ! i - y_hat ! i) ^ 2)"
    using len by (simp add: power2_commute)
  have nonneg: "0 \<le> sqrt ((\<Sum>i<length Y. (y_hat ! i - Y ! i) ^ 2) / real (length Y))"
    by (intro real_sqrt_ge_zero divide_nonneg_nonneg sum_nonneg) simp_all
  show ?thesis
    using RMSE_eq[OF len ne] RMSE_eq[OF len[symmetric] ne'] RMSE_eq[of Y Y] ne sym len nonneg
    by simp
qed

theorem RMSE_properties_witness:
  "length [0, 0 :: real] = length [3, 4 :: real] \<and> [0, 0 :: real] \<noteq> [] \<and>
   RMSE [0, 0] [3, 4] = Inr (Num (sqrt (25 / 2))) \<and>
   RMSE [0, 0] [3, 4] = RMSE [3, 4] [0, 0] \<and>
   RMSE [0, 0] [0, 0] = Inr (Num 0)"
proof -
  have len: "length [0, 0 :: real] = length [3, 4 :: real]" and ne: "[0, 0 :: real] \<noteq> []"
    by simp_all
  note inst = RMSE_properties[OF len ne]
  have val: "(\<Sum>i<length [0, 0 :: real]. ([3, 4] ! i - [0, 0 :: real] ! i) ^ 2) / real (length [0, 0 :: real])
      = 25 / 2"
    by (simp add: lessThan_Suc numeral_2_eq_2)
  have a: "RMSE [0, 0] [3, 4] = Inr (Num (sqrt (25 / 2)))"
    using inst[THEN conjunct1] unfolding val .
  have b: "RMSE [0, 0] [3, 4] = RMSE [3, 4] [0, 0]"
    by (rule inst[THEN conjunct2, THEN conjunct1])
  have c: "RMSE [0, 0] [0, 0] = Inr (Num 0)"
    using RMSE_properties[of "[0, 0]" "[0, 0]"] by simp
  show ?thesis by (intro conjI len ne a b c)
qed

text \<open>
  On empty vectors, which have equal length, the mean is not a number, and so is the
  result: it is not 0.
\<close>

theorem RMSE_empty_counterexample:
  "length ([]::real list) = length ([]::real list) \<and> RMSE [] [] = Inr NaN \<and>
   RMSE [] [] \<noteq> Inr (Num 0)"
  by (simp add: RMSE_def np_sub_def np_broadcast2_def np_mean_def)

end
